theory Spec2Isabelle
  imports Main "HOL-Library.Sublist" "HOL-Library.AList"
begin

section \<open>A shallow embedding of the json2db file server\<close>

text \<open>
  The repository's storage engine is the class \<open>FileServer\<close>: an event emitter that
  resolves caller-supplied paths against a root directory with \<open>path.join\<close> and calls
  the \<open>fs\<close> module of Node.js. The methods are embedded as functions over an explicit
  world (the directory tree, the working directory of the process and a trace of
  the emitted events and issued file-system calls). A promise is embedded by the way it
  settles: \<open>Fulfilled v\<close> or \<open>Rejected e\<close>; a method whose recursion may go on forever
  returns an \<open>option\<close>, with \<open>None\<close> for a promise that never settles.

  The platform below the class is modelled as follows.
  \<^item> Paths are POSIX paths; \<open>path.join\<close>, \<open>path.normalize\<close> and \<open>path.dirname\<close>
    follow the \<open>path.posix\<close> functions of Node.js.
  \<^item> The file system holds regular files, directories and sockets (an entry that is
    neither a file nor a directory); it has no symbolic links, permissions or limits,
    so the errors are those of name resolution and of the entry types
    (\<open>ENOENT\<close>, \<open>ENOTDIR\<close>, \<open>EEXIST\<close>, \<open>EISDIR\<close>, \<open>ENOTEMPTY\<close>, \<open>ENXIO\<close>, \<open>EBUSY\<close>),
    as Linux reports them.
  \<^item> \<open>JSON.parse\<close>, \<open>JSON.stringify\<close>, the conversion of non-string data that
    \<open>fs.writeFileSync\<close> performs, the UTF-8 encoding of a string into the bytes of a
    file and the decoding \<open>String(buffer)\<close> of bytes into a string are parameters (a
    \<open>platform\<close> record): the class only calls them.
  \<^item> Listeners of the emitter are outside the class; an emission is recorded in the
    trace and returns.
\<close>

subsection \<open>JavaScript strings and values\<close>

definition endsWith :: "string \<Rightarrow> string \<Rightarrow> bool" where
  "endsWith s searchString =
     (length searchString \<le> length s \<and> drop (length s - length searchString) s = searchString)"

fun split_slash :: "string \<Rightarrow> string list" where
  "split_slash [] = [[]]"
| "split_slash (c # cs) =
     (if c = CHR ''/'' then [] # split_slash cs
      else (c # hd (split_slash cs)) # tl (split_slash cs))"

fun join_slash :: "string list \<Rightarrow> string" where
  "join_slash [] = []"
| "join_slash [x] = x"
| "join_slash (x # y # ys) = x @ CHR ''/'' # join_slash (y # ys)"

datatype errno = ENOENT | EEXIST | ENOTDIR | EISDIR | ENOTEMPTY | ENXIO | EBUSY
  | ERR_INVALID_ARG_TYPE

datatype jsval =
    JUndefined
  | JNull
  | JBool bool
  | JNum int
  | JStr string
  | JArr "jsval list"
  | JObj "(string \<times> jsval) list"
  | JError errno

datatype 'a settled = Fulfilled 'a | Rejected errno

text \<open>
  The content of a file and of a \<open>Buffer\<close> is a sequence of bytes. \<open>utf8_encode\<close> is the
  encoding \<open>fs.writeFileSync\<close> applies to a string, \<open>utf8_decode\<close> is \<open>String(buffer)\<close>.
  Decoding undoes encoding on well-formed strings only: an unpaired surrogate is
  encoded as U+FFFD, so nothing is assumed of the two functions.
\<close>

type_synonym buffer = string

record platform =
  JSON_parse :: "string \<Rightarrow> jsval option"
  JSON_stringify :: "jsval \<Rightarrow> jsval"
  data_text :: "jsval \<Rightarrow> string option"
  utf8_encode :: "string \<Rightarrow> buffer"
  utf8_decode :: "buffer \<Rightarrow> string"

subsection \<open>The \<open>path\<close> module (POSIX)\<close>

definition isAbsolute :: "string \<Rightarrow> bool" where
  "isAbsolute path = (path \<noteq> [] \<and> hd path = CHR ''/'')"

definition trailing :: "string \<Rightarrow> bool" where
  "trailing path = (path \<noteq> [] \<and> last path = CHR ''/'')"

fun norm_step :: "bool \<Rightarrow> string list \<Rightarrow> string \<Rightarrow> string list" where
  "norm_step allowAboveRoot res seg =
     (if seg = [] \<or> seg = ''.'' then res
      else if seg = ''..'' then
        (if res \<noteq> [] \<and> last res \<noteq> ''..'' then butlast res
         else if allowAboveRoot then res @ [''..'']
         else res)
      else res @ [seg])"

definition normalizeString :: "string \<Rightarrow> bool \<Rightarrow> string" where
  "normalizeString path allowAboveRoot =
     join_slash (foldl (norm_step allowAboveRoot) [] (split_slash path))"

definition normalize_path :: "string \<Rightarrow> string" where
  "normalize_path path =
     (if path = [] then ''.''
      else
        let p = normalizeString path (\<not> isAbsolute path) in
        if p = [] then
          (if isAbsolute path then ''/'' else if trailing path then ''./'' else ''.'')
        else
          (if isAbsolute path then ''/'' else []) @ p @ (if trailing path then ''/'' else []))"

definition join :: "string \<Rightarrow> string \<Rightarrow> string" where
  "join a b =
     (let joined = (if a = [] then b else if b = [] then a else a @ CHR ''/'' # b)
      in if joined = [] then ''.'' else normalize_path joined)"

definition dirname :: "string \<Rightarrow> string" where
  "dirname path =
     (case path of
        [] \<Rightarrow> ''.''
      | c # cs \<Rightarrow>
          let r = dropWhile (\<lambda>x. x \<noteq> CHR ''/'') (dropWhile (\<lambda>x. x = CHR ''/'') (rev cs)) in
          if r = [] then (if c = CHR ''/'' then ''/'' else ''.'')
          else if c = CHR ''/'' \<and> length r = 1 then ''//''
          else take (length r) path)"

subsection \<open>The file system\<close>

datatype node = File buffer | Dir | Socket

datatype action = Emitted string "jsval list" | Called string string

record world =
  tree :: "(string list \<times> node) list"
  cwd :: "string list"
  trace :: "action list"

fun isFile :: "node \<Rightarrow> bool" where
  "isFile (File _) = True"
| "isFile _ = False"

fun isDirectory :: "node \<Rightarrow> bool" where
  "isDirectory Dir = True"
| "isDirectory _ = False"

fun kstep :: "string list \<Rightarrow> string \<Rightarrow> string list" where
  "kstep st seg =
     (if seg = [] \<or> seg = ''.'' then st
      else if seg = ''..'' then butlast st
      else st @ [seg])"

definition resolve :: "string list \<Rightarrow> string \<Rightarrow> string list" where
  "resolve wd path = foldl kstep (if isAbsolute path then [] else wd) (split_slash path)"

definition node_at :: "(string list \<times> node) list \<Rightarrow> string list \<Rightarrow> node option" where
  "node_at t p = (if p = [] then Some Dir else map_of t p)"

fun dir_chain :: "(string list \<times> node) list \<Rightarrow> string list \<Rightarrow> string list \<Rightarrow> errno option" where
  "dir_chain t pre [] = None"
| "dir_chain t pre (x # xs) =
     (case node_at t pre of
        None \<Rightarrow> Some ENOENT
      | Some Dir \<Rightarrow> dir_chain t (pre @ [x]) xs
      | Some _ \<Rightarrow> Some ENOTDIR)"

definition locate :: "world \<Rightarrow> string \<Rightarrow> errno + node option" where
  "locate s path =
     (let p = resolve (cwd s) path in
      case dir_chain (tree s) [] p of
        Some e \<Rightarrow> Inl e
      | None \<Rightarrow> Inr (node_at (tree s) p))"

definition children :: "(string list \<times> node) list \<Rightarrow> string list \<Rightarrow> string list" where
  "children t p = map (last \<circ> fst) (filter (\<lambda>(q, n). q \<noteq> [] \<and> butlast q = p) t)"

definition called :: "string \<Rightarrow> string \<Rightarrow> world \<Rightarrow> world" where
  "called name path s = s\<lparr>trace := trace s @ [Called name path]\<rparr>"

definition emit :: "string \<Rightarrow> jsval list \<Rightarrow> world \<Rightarrow> world" where
  "emit name args s = s\<lparr>trace := trace s @ [Emitted name args]\<rparr>"

definition pmStat :: "world \<Rightarrow> string \<Rightarrow> node settled \<times> world" where
  "pmStat s path =
     (case locate s path of
        Inl e \<Rightarrow> Rejected e
      | Inr None \<Rightarrow> Rejected ENOENT
      | Inr (Some n) \<Rightarrow> if trailing path \<and> n \<noteq> Dir then Rejected ENOTDIR else Fulfilled n,
      called ''stat'' path s)"

definition pmMkdir :: "world \<Rightarrow> string \<Rightarrow> unit settled \<times> world" where
  "pmMkdir s path =
     (case locate s path of
        Inl e \<Rightarrow> (Rejected e, called ''mkdir'' path s)
      | Inr (Some n) \<Rightarrow> (Rejected EEXIST, called ''mkdir'' path s)
      | Inr None \<Rightarrow>
          (Fulfilled (),
           (called ''mkdir'' path s)\<lparr>tree := AList.update (resolve (cwd s) path) Dir (tree s)\<rparr>))"

definition pmReadFile :: "world \<Rightarrow> string \<Rightarrow> buffer settled \<times> world" where
  "pmReadFile s path =
     (case locate s path of
        Inl e \<Rightarrow> Rejected e
      | Inr None \<Rightarrow> Rejected ENOENT
      | Inr (Some Dir) \<Rightarrow> Rejected EISDIR
      | Inr (Some (File bytes)) \<Rightarrow> if trailing path then Rejected ENOTDIR else Fulfilled bytes
      | Inr (Some Socket) \<Rightarrow> if trailing path then Rejected ENOTDIR else Rejected ENXIO,
      called ''readFile'' path s)"

text \<open>
  The text \<open>fs.writeFileSync\<close> writes for its data: a string is the text itself; what
  happens to any other value depends on the version of Node.js (older versions write
  the string the value coerces to, newer ones throw a \<open>TypeError\<close>) and is the
  platform's \<open>data_text\<close>, with \<open>None\<close> for the \<open>TypeError\<close>. The file receives the
  UTF-8 encoding of the text. The file is opened with \<open>O_CREAT\<close>, for which a path
  with a trailing slash gives \<open>EISDIR\<close> once its parent is resolved, whatever is at
  the path.
\<close>

definition to_text :: "platform \<Rightarrow> jsval \<Rightarrow> string option" where
  "to_text P data = (case data of JStr t \<Rightarrow> Some t | _ \<Rightarrow> data_text P data)"

definition writeFileSync :: "platform \<Rightarrow> world \<Rightarrow> string \<Rightarrow> jsval \<Rightarrow> (errno + unit) \<times> world" where
  "writeFileSync P s path data =
     (let s1 = called ''writeFileSync'' path s in
      case to_text P data of
        None \<Rightarrow> (Inl ERR_INVALID_ARG_TYPE, s1)
      | Some text \<Rightarrow>
          (let s2 = s1\<lparr>tree := AList.update (resolve (cwd s) path)
                                   (File (utf8_encode P text)) (tree s)\<rparr> in
           case locate s path of
             Inl e \<Rightarrow> (Inl e, s1)
           | Inr found \<Rightarrow>
               if trailing path then (Inl EISDIR, s1)
               else (case found of
                       None \<Rightarrow> (Inr (), s2)
                     | Some Dir \<Rightarrow> (Inl EISDIR, s1)
                     | Some (File old) \<Rightarrow> (Inr (), s2)
                     | Some Socket \<Rightarrow> (Inl ENXIO, s1))))"

definition pmUnlink :: "world \<Rightarrow> string \<Rightarrow> unit settled \<times> world" where
  "pmUnlink s path =
     (let s1 = called ''unlink'' path s in
      case locate s path of
        Inl e \<Rightarrow> (Rejected e, s1)
      | Inr None \<Rightarrow> (Rejected ENOENT, s1)
      | Inr (Some Dir) \<Rightarrow> (Rejected EISDIR, s1)
      | Inr (Some n) \<Rightarrow>
          if trailing path then (Rejected ENOTDIR, s1)
          else (Fulfilled (), s1\<lparr>tree := AList.delete (resolve (cwd s) path) (tree s)\<rparr>))"

definition pmRmdir :: "world \<Rightarrow> string \<Rightarrow> unit settled \<times> world" where
  "pmRmdir s path =
     (let s1 = called ''rmdir'' path s; p = resolve (cwd s) path in
      case locate s path of
        Inl e \<Rightarrow> (Rejected e, s1)
      | Inr None \<Rightarrow> (Rejected ENOENT, s1)
      | Inr (Some Dir) \<Rightarrow>
          if p = [] then (Rejected EBUSY, s1)
          else if children (tree s) p \<noteq> [] then (Rejected ENOTEMPTY, s1)
          else (Fulfilled (), s1\<lparr>tree := AList.delete p (tree s)\<rparr>)
      | Inr (Some n) \<Rightarrow> (Rejected ENOTDIR, s1))"

definition pmReaddir :: "world \<Rightarrow> string \<Rightarrow> string list settled \<times> world" where
  "pmReaddir s path =
     (case locate s path of
        Inl e \<Rightarrow> Rejected e
      | Inr None \<Rightarrow> Rejected ENOENT
      | Inr (Some Dir) \<Rightarrow> Fulfilled (children (tree s) (resolve (cwd s) path))
      | Inr (Some n) \<Rightarrow> Rejected ENOTDIR,
      called ''readdir'' path s)"

subsection \<open>The class \<open>FileServer\<close>\<close>

record fileserver =
  dirpath :: string

text \<open>The constructor throws when \<open>dirpath\<close> is empty.\<close>

definition FileServer :: "string \<Rightarrow> fileserver option" where
  "FileServer d = (if d = [] then None else Some \<lparr>dirpath = d\<rparr>)"

definition read :: "platform \<Rightarrow> fileserver \<Rightarrow> world \<Rightarrow> string \<Rightarrow> jsval settled \<times> world" where
  "read P this s fpath =
     (case pmReadFile s (join (dirpath this) fpath) of
        (Rejected er, s1) \<Rightarrow> (Rejected er, s1)
      | (Fulfilled bytes, s1) \<Rightarrow>
          let text = utf8_decode P bytes;
              filejson = (case JSON_parse P text of Some v \<Rightarrow> v | None \<Rightarrow> JStr text)
          in (Fulfilled filejson, emit ''read'' [JStr fpath, filejson] s1))"

text \<open>
  The method \<open>write\<close> of the class; \<open>write\<close> is a keyword of Isabelle, hence the name.
  The event is emitted first; the promise's executor then evaluates the path, the data
  and the call of \<open>writeFileSync\<close>, and rejects with what the call throws.
\<close>

definition write_doc :: "platform \<Rightarrow> fileserver \<Rightarrow> world \<Rightarrow> string \<Rightarrow> jsval \<Rightarrow> jsval settled \<times> world" where
  "write_doc P this s fpath data =
     (let s1 = emit ''write'' [JStr fpath, data] s in
      case writeFileSync P s1 (join (dirpath this) fpath)
             (if endsWith fpath ''.json'' then JSON_stringify P data else data) of
        (Inr written, s2) \<Rightarrow> (Fulfilled JUndefined, s2)
      | (Inl er, s2) \<Rightarrow> (Rejected er, s2))"

definition del :: "fileserver \<Rightarrow> world \<Rightarrow> string \<Rightarrow> jsval settled \<times> world" where
  "del this s fpath =
     (case pmUnlink (emit ''delete'' [JStr fpath] s) (join (dirpath this) fpath) of
        (Fulfilled u, s1) \<Rightarrow> (Fulfilled JUndefined, s1)
      | (Rejected er, s1) \<Rightarrow> (Rejected er, s1))"

definition stat :: "fileserver \<Rightarrow> world \<Rightarrow> string \<Rightarrow> node settled \<times> world" where
  "stat this s fdpath = pmStat s (join (dirpath this) fdpath)"

definition mkdir :: "fileserver \<Rightarrow> world \<Rightarrow> string \<Rightarrow> unit settled \<times> world" where
  "mkdir this s dpath = pmMkdir s (join (dirpath this) dpath)"

definition rmdir :: "fileserver \<Rightarrow> world \<Rightarrow> string \<Rightarrow> jsval settled \<times> world" where
  "rmdir this s dpath =
     (case pmRmdir s (join (dirpath this) dpath) of
        (Fulfilled u, s1) \<Rightarrow> (Fulfilled JUndefined, s1)
      | (Rejected er, s1) \<Rightarrow> (Rejected er, s1))"

text \<open>
  \<open>mkdirp\<close>: every error is caught and returned, so the promise is fulfilled with \<open>1\<close> or
  with the error object. In the \<open>ENOENT\<close> branch the parent's promise is awaited (a
  rejection of it would be caught and returned) and the promise of the second call is
  returned as it is.
\<close>

partial_function (option) mkdirp :: "fileserver \<Rightarrow> world \<Rightarrow> string \<Rightarrow> (jsval settled \<times> world) option" where
  "mkdirp this s dpath =
     (case mkdir this s dpath of
        (Fulfilled u, s1) \<Rightarrow> Some (Fulfilled (JNum 1), s1)
      | (Rejected er, s1) \<Rightarrow>
          if er = ENOENT then
            Option.bind (mkdirp this s1 (dirname dpath))
              (\<lambda>(r, s2). case r of
                   Rejected ert \<Rightarrow> Some (Fulfilled (JError ert), s2)
                 | Fulfilled v \<Rightarrow> mkdirp this s2 dpath)
          else
            (case stat this s1 dpath of
               (Fulfilled stt, s2) \<Rightarrow>
                 Some (Fulfilled (if isDirectory stt then JNum 1 else JError er), s2)
             | (Rejected er2, s2) \<Rightarrow> Some (Fulfilled (JError er2), s2)))"

text \<open>
  \<open>writep\<close>: the default value of \<open>data\<close> is the empty object. The promise of \<open>mkdirp\<close> is
  awaited and its value dropped; the promises of \<open>write\<close> are returned as they are.
\<close>

definition writep :: "platform \<Rightarrow> fileserver \<Rightarrow> world \<Rightarrow> string \<Rightarrow> jsval \<Rightarrow> (jsval settled \<times> world) option" where
  "writep P this s fpath data0 =
     (let data = (if data0 = JUndefined then JObj [] else data0) in
      Option.bind (mkdirp this s (dirname fpath))
        (\<lambda>(r, s1). case r of
             Rejected e \<Rightarrow> Some (Rejected e, s1)
           | Fulfilled v \<Rightarrow>
               (case stat this s1 fpath of
                  (Rejected er, s2) \<Rightarrow>
                    if er = ENOENT then Some (write_doc P this s2 fpath data)
                    else Some (Fulfilled (JError er), s2)
                | (Fulfilled st, s2) \<Rightarrow>
                    if isFile st then Some (Fulfilled (JNum 1), s2)
                    else Some (write_doc P this s2 fpath data))))"

text \<open>
  \<open>rmrdir\<close> starts one call per directory entry and awaits them with \<open>Promise.all\<close>;
  the calls then run interleaved, in an order the event loop decides. The embedding
  runs them one after the other, in the order of the listing, lets every one of them
  finish, and rejects with the first rejection in that order: the entries are removed
  as in the code, but the order of the calls in the trace below a directory is that of
  this one schedule, and nothing is stated of it.
\<close>

fun each_seq :: "('a \<Rightarrow> world \<Rightarrow> (jsval settled \<times> world) option) \<Rightarrow> 'a list \<Rightarrow> world \<Rightarrow> (errno option \<times> world) option" where
  "each_seq f [] s = Some (None, s)"
| "each_seq f (x # xs) s =
     Option.bind (f x s)
       (\<lambda>rs. Option.bind (each_seq f xs (snd rs))
          (\<lambda>es. Some (case fst rs of Rejected er \<Rightarrow> Some er | Fulfilled v \<Rightarrow> fst es, snd es)))"

lemma each_seq_mono [partial_function_mono]:
  assumes "\<And>x w. mono_option (\<lambda>f. B f x w)"
  shows "mono_option (\<lambda>f. each_seq (B f) xs s)"
proof (induction xs arbitrary: s)
  case Nil
  show ?case by (simp add: option.const_mono)
next
  case (Cons x xs)
  show ?case
    unfolding each_seq.simps
    by (intro partial_function_mono assms Cons.IH)
qed

partial_function (option) rmrdir :: "fileserver \<Rightarrow> world \<Rightarrow> string \<Rightarrow> (jsval settled \<times> world) option" where
  "rmrdir this s dpath =
     (case stat this s dpath of
        (Rejected er, s1) \<Rightarrow> Some (Rejected er, s1)
      | (Fulfilled stats, s1) \<Rightarrow>
          if isFile stats then Some (del this s1 dpath)
          else if isDirectory stats then
            (case pmReaddir s1 (join (dirpath this) dpath) of
               (Rejected er, s2) \<Rightarrow> Some (Rejected er, s2)
             | (Fulfilled names, s2) \<Rightarrow>
                 Option.bind (each_seq (\<lambda>dpth w. rmrdir this w (join dpath dpth)) names s2)
                   (\<lambda>(e, s3). case e of
                        Some er \<Rightarrow> Some (Rejected er, s3)
                      | None \<Rightarrow> Some (rmdir this s3 dpath)))
          else Some (Fulfilled (JNum 1), s1))"

subsection \<open>Auxiliary notions\<close>

text \<open>
  Two notions for the lemmas on \<open>mkdirp\<close>: worlds with the same file system (the traces
  may differ), and a world in which \<open>mkdirp\<close> takes its \<open>default\<close> branch at once:
  \<open>mkdir\<close> fails with an error other than \<open>ENOENT\<close> and the promise is fulfilled with
  what the following \<open>stat\<close> decides.
\<close>

definition same_files :: "world \<Rightarrow> world \<Rightarrow> bool" where
  "same_files w s = (tree w = tree s \<and> cwd w = cwd s)"

definition settled_by_stat :: "fileserver \<Rightarrow> world \<Rightarrow> string \<Rightarrow> jsval settled \<Rightarrow> bool" where
  "settled_by_stat this w dpath r =
     (\<exists>er. fst (mkdir this w dpath) = Rejected er \<and> er \<noteq> ENOENT \<and>
        r = Fulfilled (case fst (stat this w dpath) of
                         Fulfilled stt \<Rightarrow> if isDirectory stt then JNum 1 else JError er
                       | Rejected er2 \<Rightarrow> JError er2))"

text \<open>
  The invariant of the segments \<open>normalizeString\<close> has collected: none is empty or
  \<open>.\<close>, and \<open>..\<close> occurs only where the path may rise above its start.
\<close>

definition norm_inv :: "bool \<Rightarrow> string list \<Rightarrow> bool" where
  "norm_inv allow N = ((\<forall>e\<in>set N. e \<noteq> [] \<and> e \<noteq> ''.'') \<and> (allow \<or> ''..'' \<notin> set N))"

subsection \<open>Example worlds\<close>

text \<open>
  A store rooted at \<open>/data\<close>, which holds the directory \<open>a\<close> and the socket
  \<open>ctl.sock\<close>; the same store with a document \<open>a/doc.json\<close> that holds the text
  \<open>true\<close>; and a store rooted at
  \<open>/srv/db\<close> in the first world, where neither \<open>/srv/db\<close> nor \<open>/srv\<close> exists.
\<close>

definition example_world :: world where
  "example_world =
     \<lparr>tree = [([''data''], Dir), ([''data'', ''a''], Dir), ([''data'', ''ctl.sock''], Socket)],
      cwd = [], trace = []\<rparr>"

definition stored_world :: world where
  "stored_world =
     \<lparr>tree = [([''data''], Dir), ([''data'', ''a''], Dir), ([''data'', ''ctl.sock''], Socket),
              ([''data'', ''a'', ''doc.json''], File ''true'')],
      cwd = [], trace = []\<rparr>"

definition example_server :: fileserver where
  "example_server = \<lparr>dirpath = ''/data''\<rparr>"

definition orphan_server :: fileserver where
  "orphan_server = \<lparr>dirpath = ''/srv/db''\<rparr>"

text \<open>
  A platform for the examples: \<open>JSON.parse\<close> and \<open>JSON.stringify\<close> as they are on the
  literals \<open>null\<close>, \<open>true\<close>, \<open>false\<close> and on the empty object, a \<open>writeFileSync\<close>
  that refuses data that is not a string, and UTF-8 as it is on ASCII text, where the
  bytes are the characters. The examples use it on these texts and values, and on ASCII
  texts that are not JSON.
\<close>

definition literal_platform :: platform where
  "literal_platform =
     \<lparr>JSON_parse = (\<lambda>t.
          if t = ''null'' then Some JNull
          else if t = ''true'' then Some (JBool True)
          else if t = ''false'' then Some (JBool False)
          else if t = ''{}'' then Some (JObj [])
          else None),
      JSON_stringify = (\<lambda>v.
          if v = JNull then JStr ''null''
          else if v = JBool True then JStr ''true''
          else if v = JBool False then JStr ''false''
          else if v = JObj [] then JStr ''{}''
          else JUndefined),
      data_text = (\<lambda>v. None),
      utf8_encode = (\<lambda>t. t),
      utf8_decode = (\<lambda>b. b)\<rparr>"

declare mkdirp.simps [code]
declare rmrdir.simps [code]

section \<open>Lemmas\<close>

subsection \<open>Name resolution in the tree\<close>

lemma node_at_Nil [simp]: "node_at t [] = Some Dir"
  by (simp add: node_at_def)

lemma node_at_update:
  "node_at (AList.update p n t) q = (if q = [] then Some Dir else if q = p then Some n else node_at t q)"
  by (simp add: node_at_def update_conv')

lemma dir_chain_frame:
  "(\<And>k. k < length xs \<Longrightarrow> node_at t' (pre @ take k xs) = node_at t (pre @ take k xs))
   \<Longrightarrow> dir_chain t' pre xs = dir_chain t pre xs"
proof (induction xs arbitrary: pre)
  case Nil
  show ?case by simp
next
  case (Cons x xs)
  have h0: "node_at t' pre = node_at t pre"
    using Cons.prems [of 0] by simp
  have "dir_chain t' (pre @ [x]) xs = dir_chain t (pre @ [x]) xs"
  proof (rule Cons.IH)
    fix k assume "k < length xs"
    then show "node_at t' ((pre @ [x]) @ take k xs) = node_at t ((pre @ [x]) @ take k xs)"
      using Cons.prems [of "Suc k"] by simp
  qed
  with h0 show ?case by (simp split: option.split node.split)
qed

lemma dir_chain_update_self:
  "dir_chain (AList.update p n t) [] p = dir_chain t [] p"
proof (rule dir_chain_frame)
  fix k assume "k < length p"
  then have "take k p \<noteq> p" by (metis length_take min.absorb2 nat_less_le)
  then show "node_at (AList.update p n t) ([] @ take k p) = node_at t ([] @ take k p)"
    by (simp add: node_at_update)
qed

lemma dir_chain_update_other:
  assumes "\<not> prefix p q"
  shows "dir_chain (AList.update p n t) [] q = dir_chain t [] q"
proof (rule dir_chain_frame)
  fix k assume "k < length q"
  have "take k q \<noteq> p" using assms by (metis take_is_prefix)
  then show "node_at (AList.update p n t) ([] @ take k q) = node_at t ([] @ take k q)"
    by (simp add: node_at_update)
qed

lemma locate_called [simp]: "locate (called name path s) q = locate s q"
  by (simp add: locate_def called_def Let_def split: option.split)

lemma locate_emit [simp]: "locate (emit name args s) q = locate s q"
  by (simp add: locate_def emit_def Let_def split: option.split)

lemma locate_absent_nonempty:
  "locate s path = Inr None \<Longrightarrow> resolve (cwd s) path \<noteq> []"
  by (auto simp: locate_def Let_def split: option.splits)

lemma locate_file_nonempty:
  "locate s path = Inr (Some (File old)) \<Longrightarrow> resolve (cwd s) path \<noteq> []"
  by (auto simp: locate_def Let_def split: option.splits)

lemma locate_written:
  assumes "locate s path = Inr x" and "resolve (cwd s) path \<noteq> []"
      and "cwd s' = cwd s" and "tree s' = AList.update (resolve (cwd s) path) n (tree s)"
  shows "locate s' path = Inr (Some n)"
  using assms
  by (auto simp: locate_def Let_def dir_chain_update_self node_at_update split: option.splits)

lemma writeFileSync_then_readFile:
  assumes "writeFileSync P s path data = (Inr u, s1)"
  shows "\<exists>str. to_text P data = Some str \<and>
           pmReadFile s1 path = (Fulfilled (utf8_encode P str), called ''readFile'' path s1)"
proof -
  from assms obtain str where t: "to_text P data = Some str"
    by (auto simp: writeFileSync_def Let_def split: option.splits)
  from assms t have nt: "\<not> trailing path"
    by (auto simp: writeFileSync_def Let_def split: option.splits sum.splits node.splits if_splits)
  from assms t obtain x where loc: "locate s path = Inr x"
    by (auto simp: writeFileSync_def Let_def split: option.splits sum.splits node.splits if_splits)
  from assms t loc have ne: "resolve (cwd s) path \<noteq> []"
    by (auto simp: writeFileSync_def Let_def dest: locate_absent_nonempty locate_file_nonempty
        split: option.splits sum.splits node.splits if_splits)
  from assms t have s1: "cwd s1 = cwd s"
      "tree s1 = AList.update (resolve (cwd s) path) (File (utf8_encode P str)) (tree s)"
    by (auto simp: writeFileSync_def Let_def called_def split: option.splits sum.splits node.splits if_splits)
  have "locate s1 path = Inr (Some (File (utf8_encode P str)))"
    by (rule locate_written [OF loc ne s1])
  with nt t show ?thesis by (simp add: pmReadFile_def)
qed



subsection \<open>Reading what was written; removing what is not there\<close>

lemma read_after_write:
  assumes "write_doc P this s fpath data = (Fulfilled u, s1)"
  shows "\<exists>str. to_text P (if endsWith fpath ''.json'' then JSON_stringify P data else data) = Some str \<and>
     fst (read P this s1 fpath) =
       Fulfilled (case JSON_parse P (utf8_decode P (utf8_encode P str)) of
                    Some v \<Rightarrow> v | None \<Rightarrow> JStr (utf8_decode P (utf8_encode P str)))"
proof -
  let ?d = "if endsWith fpath ''.json'' then JSON_stringify P data else data"
  let ?s0 = "emit ''write'' [JStr fpath, data] s"
  from assms obtain w where w: "writeFileSync P ?s0 (join (dirpath this) fpath) ?d = (Inr w, s1)"
    by (auto simp: write_doc_def Let_def split: prod.splits sum.splits)
  from writeFileSync_then_readFile [OF w] obtain str where
    "to_text P ?d = Some str"
    "pmReadFile s1 (join (dirpath this) fpath) =
       (Fulfilled (utf8_encode P str), called ''readFile'' (join (dirpath this) fpath) s1)"
    by blast
  then show ?thesis by (auto simp: read_def Let_def)
qed

lemma rmrdir_absent:
  assumes "fst (stat this s dpath) = Rejected e"
  shows "rmrdir this s dpath = Some (Rejected e, called ''stat'' (join (dirpath this) dpath) s)"
proof -
  have "stat this s dpath = (Rejected e, called ''stat'' (join (dirpath this) dpath) s)"
    using assms by (simp add: stat_def pmStat_def)
  then show ?thesis by (subst rmrdir.simps) simp
qed

lemma rmrdir_other:
  assumes "fst (stat this s dpath) = Fulfilled Socket"
  shows "rmrdir this s dpath = Some (Fulfilled (JNum 1), called ''stat'' (join (dirpath this) dpath) s)"
proof -
  have "stat this s dpath = (Fulfilled Socket, called ''stat'' (join (dirpath this) dpath) s)"
    using assms by (simp add: stat_def pmStat_def)
  then show ?thesis by (subst rmrdir.simps) simp
qed

subsection \<open>\<open>mkdirp\<close> ends in its \<open>default\<close> branch\<close>

lemma same_files_refl [simp]: "same_files s s"
  by (simp add: same_files_def)

lemma same_files_called [simp]: "same_files (called name path s) w = same_files s w"
  "same_files w (called name path s) = same_files w s"
  by (simp_all add: same_files_def called_def)

lemma same_files_emit [simp]: "same_files (emit name args s) w = same_files s w"
  "same_files w (emit name args s) = same_files w s"
  by (simp_all add: same_files_def emit_def)

lemma locate_same: "same_files w s \<Longrightarrow> locate w q = locate s q"
  by (simp add: locate_def same_files_def Let_def split: option.split)

lemma stat_unfold:
  "stat this s p = (fst (stat this s p), called ''stat'' (join (dirpath this) p) s)"
  by (simp add: stat_def pmStat_def)

lemma stat_fst_same: "same_files w s \<Longrightarrow> fst (stat this w p) = fst (stat this s p)"
  using locate_same [of w s] by (simp add: stat_def pmStat_def)

lemma mkdir_fst:
  "fst (mkdir this s p) =
     (case locate s (join (dirpath this) p) of
        Inl e \<Rightarrow> Rejected e | Inr None \<Rightarrow> Fulfilled () | Inr (Some n) \<Rightarrow> Rejected EEXIST)"
  by (simp add: mkdir_def pmMkdir_def split: sum.splits option.splits)

lemma mkdir_fst_same: "same_files w s \<Longrightarrow> fst (mkdir this w p) = fst (mkdir this s p)"
  using locate_same [of w s] by (simp add: mkdir_fst)

lemma mkdir_rejected:
  "fst (mkdir this s p) = Rejected e \<Longrightarrow>
     mkdir this s p = (Rejected e, called ''mkdir'' (join (dirpath this) p) s)"
  by (auto simp: mkdir_def pmMkdir_def split: sum.splits option.splits)

lemma mkdir_fulfilled:
  assumes "mkdir this s p = (Fulfilled u, s1)"
  shows "locate s1 (join (dirpath this) p) = Inr (Some Dir)"
proof -
  let ?path = "join (dirpath this) p"
  from assms have loc: "locate s ?path = Inr None"
    by (auto simp: mkdir_def pmMkdir_def split: sum.splits option.splits)
  from assms have s1: "cwd s1 = cwd s" "tree s1 = AList.update (resolve (cwd s) ?path) Dir (tree s)"
    by (auto simp: mkdir_def pmMkdir_def called_def split: sum.splits option.splits)
  show ?thesis
    by (rule locate_written [OF loc locate_absent_nonempty [OF loc] s1])
qed

lemma settled_by_stat_same:
  "same_files w s \<Longrightarrow> settled_by_stat this s p r \<Longrightarrow> settled_by_stat this w p r"
  using mkdir_fst_same [of w s this p] stat_fst_same [of w s this p]
  by (simp add: settled_by_stat_def)

lemma settled_by_stat_mkdirp:
  assumes "settled_by_stat this w p r"
  shows "mkdirp this w p =
           Some (r, called ''stat'' (join (dirpath this) p) (called ''mkdir'' (join (dirpath this) p) w))"
proof -
  let ?path = "join (dirpath this) p"
  from assms obtain er where er: "fst (mkdir this w p) = Rejected er" "er \<noteq> ENOENT"
    and r: "r = Fulfilled (case fst (stat this w p) of
                         Fulfilled stt \<Rightarrow> if isDirectory stt then JNum 1 else JError er
                       | Rejected er2 \<Rightarrow> JError er2)"
    by (auto simp: settled_by_stat_def)
  have m: "mkdir this w p = (Rejected er, called ''mkdir'' ?path w)"
    by (rule mkdir_rejected [OF er(1)])
  have st: "stat this (called ''mkdir'' ?path w) p =
      (fst (stat this w p), called ''stat'' ?path (called ''mkdir'' ?path w))"
    by (subst stat_unfold) (simp add: stat_fst_same [of "called ''mkdir'' ?path w" w])
  show ?thesis
    by (subst mkdirp.simps) (simp add: m er(2) st r split: settled.splits)
qed

lemmas mkdirp_induct = mkdirp.raw_induct [rotated, consumes 1, case_names step]

lemma mkdirp_settled_by_stat:
  "mkdirp this s p = Some y \<Longrightarrow> settled_by_stat this (snd y) p (fst y)"
proof (induct rule: mkdirp_induct)
  case (step mkdirp' this s dpath y)
  note 1 = step
  let ?path = "join (dirpath this) dpath"
  obtain m s1 where ms: "mkdir this s dpath = (m, s1)" by (cases "mkdir this s dpath")
  show ?case
  proof (cases m)
    case (Fulfilled u)
    with 1(2) ms have y: "y = (Fulfilled (JNum 1), s1)" by simp
    from ms Fulfilled have loc: "locate s1 ?path = Inr (Some Dir)"
      by (simp add: mkdir_fulfilled)
    have a: "fst (mkdir this s1 dpath) = Rejected EEXIST"
      by (simp add: mkdir_fst loc)
    have b: "fst (stat this s1 dpath) = Fulfilled Dir"
      by (simp add: stat_def pmStat_def loc)
    show ?thesis
      unfolding settled_by_stat_def y using a b by simp
  next
    case (Rejected er)
    with ms have s1: "s1 = called ''mkdir'' ?path s"
      using mkdir_rejected [of this s dpath er] by simp
    show ?thesis
    proof (cases "er = ENOENT")
      case True
      with 1(2) ms Rejected obtain r s2 where
         a: "mkdirp' this s1 (dirname dpath) = Some (r, s2)"
         and b: "(case r of Fulfilled v \<Rightarrow> mkdirp' this s2 dpath
                  | Rejected ert \<Rightarrow> Some (Fulfilled (JError ert), s2)) = Some y"
        by (auto simp: bind_eq_Some_conv)
      show ?thesis
      proof (cases r)
        case (Fulfilled v)
        with b have "mkdirp' this s2 dpath = Some y" by simp
        then show ?thesis by (rule 1(1))
      next
        case (Rejected ert)
        from 1(1) [OF a] have "settled_by_stat this s2 (dirname dpath) r" by simp
        with Rejected show ?thesis by (simp add: settled_by_stat_def)
      qed
    next
      case False
      have st: "stat this s1 dpath = (fst (stat this s dpath), called ''stat'' ?path s1)"
        by (subst stat_unfold) (simp add: s1 stat_fst_same [of "called ''mkdir'' ?path s" s])
      from 1(2) ms Rejected False st
      have y: "y = (Fulfilled (case fst (stat this s dpath) of
                         Fulfilled stt \<Rightarrow> if isDirectory stt then JNum 1 else JError er
                       | Rejected er2 \<Rightarrow> JError er2), called ''stat'' ?path s1)"
        by (auto split: settled.splits)
      have "settled_by_stat this s dpath (fst y)"
        using ms Rejected False by (auto simp: settled_by_stat_def y)
      moreover have "same_files (snd y) s" by (simp add: y s1)
      ultimately show ?thesis by (rule settled_by_stat_same [rotated])
    qed
  qed
qed

subsection \<open>A fresh write of \<open>writep\<close>\<close>

lemma dir_chain_append:
  "dir_chain t pre (xs @ y # ys) =
     (case dir_chain t pre xs of Some e \<Rightarrow> Some e | None \<Rightarrow> dir_chain t (pre @ xs) (y # ys))"
  by (induction xs arbitrary: pre) (auto split: option.splits node.splits)

lemma dir_chain_below_absent:
  assumes "dir_chain t [] p = None" and "node_at t p = None" and "strict_prefix p q"
  shows "dir_chain t [] q = Some ENOENT"
proof -
  from assms(3) obtain y ys where q: "q = p @ y # ys"
    by (metis strict_prefixE' )
  show ?thesis using assms(1,2) by (simp add: q dir_chain_append)
qed

lemma locate_update_other:
  assumes "\<not> prefix p (resolve (cwd s) path)" and "cwd s' = cwd s"
      and "tree s' = AList.update p n (tree s)"
  shows "locate s' path = locate s path"
proof -
  have "resolve (cwd s) path \<noteq> p" using assms(1) by auto
  then show ?thesis
    using assms
    by (simp add: locate_def Let_def dir_chain_update_other node_at_update
        split: option.split)
qed

lemma mkdir_not_below_absent:
  assumes "locate s path = Inr None"
      and "fst (mkdir this s d) = Rejected er" and "er \<noteq> ENOENT"
  shows "\<not> prefix (resolve (cwd s) path) (resolve (cwd s) (join (dirpath this) d))"
proof
  let ?p = "resolve (cwd s) path" and ?q = "resolve (cwd s) (join (dirpath this) d)"
  assume pre: "prefix ?p ?q"
  from assms(1) have c: "dir_chain (tree s) [] ?p = None" and n: "node_at (tree s) ?p = None"
    by (auto simp: locate_def Let_def split: option.splits)
  show False
  proof (cases "?p = ?q")
    case True
    with c n have "locate s (join (dirpath this) d) = Inr None"
      by (simp add: locate_def Let_def)
    with assms(2) show False by (simp add: mkdir_fst)
  next
    case False
    with pre have "strict_prefix ?p ?q" by (simp add: strict_prefix_def)
    from dir_chain_below_absent [OF c n this]
    have "locate s (join (dirpath this) d) = Inl ENOENT"
      by (simp add: locate_def Let_def)
    with assms(2,3) show False by (simp add: mkdir_fst)
  qed
qed

lemma writeFileSync_fulfilled:
  assumes "writeFileSync P s path data = (Inr u, s1)"
  shows "\<exists>str. to_text P data = Some str \<and> \<not> trailing path \<and>
           (locate s path = Inr None \<or> (\<exists>old. locate s path = Inr (Some (File old)))) \<and>
           cwd s1 = cwd s \<and>
           tree s1 = AList.update (resolve (cwd s) path) (File (utf8_encode P str)) (tree s) \<and>
           trace s1 = trace s @ [Called ''writeFileSync'' path]"
  using assms
  by (auto simp: writeFileSync_def Let_def called_def
      split: option.splits sum.splits node.splits if_splits)

lemma write_doc_fulfilled:
  assumes "write_doc P this s fpath data = (Fulfilled v, s1)"
  shows "\<exists>u. writeFileSync P (emit ''write'' [JStr fpath, data] s) (join (dirpath this) fpath)
          (if endsWith fpath ''.json'' then JSON_stringify P data else data) = (Inr u, s1)"
  using assms by (auto simp: write_doc_def Let_def split: prod.splits sum.splits)

lemma stat_fst:
  "fst (stat this s p) =
     (case locate s (join (dirpath this) p) of
        Inl e \<Rightarrow> Rejected e
      | Inr None \<Rightarrow> Rejected ENOENT
      | Inr (Some n) \<Rightarrow>
          if trailing (join (dirpath this) p) \<and> n \<noteq> Dir then Rejected ENOTDIR else Fulfilled n)"
  by (simp add: stat_def pmStat_def)

lemma writep_fresh:
  assumes "writep P this s fpath v = Some (Fulfilled JUndefined, s1)"
  shows "\<exists>r sa. mkdirp this s (dirname fpath) = Some (r, sa) \<and>
           locate sa (join (dirpath this) fpath) = Inr None \<and>
           write_doc P this (called ''stat'' (join (dirpath this) fpath) sa) fpath
             (if v = JUndefined then JObj [] else v) = (Fulfilled JUndefined, s1)"
proof -
  let ?path = "join (dirpath this) fpath"
  let ?data = "if v = JUndefined then JObj [] else v"
  from assms obtain r sa where m: "mkdirp this s (dirname fpath) = Some (r, sa)"
    by (auto simp: writep_def Let_def bind_eq_Some_conv)
  let ?sb = "called ''stat'' ?path sa"
  have st: "stat this sa fpath = (fst (stat this sa fpath), ?sb)" by (rule stat_unfold)
  from assms m obtain x where r: "r = Fulfilled x"
    by (cases r) (auto simp: writep_def Let_def)
  have w: "write_doc P this ?sb fpath ?data = (Fulfilled JUndefined, s1)
         \<and> locate sa ?path = Inr None"
  proof (cases "fst (stat this sa fpath)")
    case (Rejected er)
    with assms m r st have er: "er = ENOENT"
      and wd: "write_doc P this ?sb fpath ?data = (Fulfilled JUndefined, s1)"
      by (auto simp: writep_def Let_def split: if_splits prod.splits)
    from write_doc_fulfilled [OF wd] obtain u where
      "writeFileSync P (emit ''write'' [JStr fpath, ?data] ?sb) ?path
          (if endsWith fpath ''.json'' then JSON_stringify P ?data else ?data) = (Inr u, s1)"
      by blast
    from writeFileSync_fulfilled [OF this]
    have nt: "\<not> trailing ?path"
      and "locate sa ?path = Inr None \<or> (\<exists>old. locate sa ?path = Inr (Some (File old)))"
      by auto
    with Rejected have "locate sa ?path = Inr None"
      by (auto simp: stat_fst)
    with wd show ?thesis by simp
  next
    case (Fulfilled n)
    with assms m r st have nf: "\<not> isFile n"
      and wd: "write_doc P this ?sb fpath ?data = (Fulfilled JUndefined, s1)"
      by (auto simp: writep_def Let_def split: if_splits prod.splits)
    from write_doc_fulfilled [OF wd] obtain u where
      "writeFileSync P (emit ''write'' [JStr fpath, ?data] ?sb) ?path
          (if endsWith fpath ''.json'' then JSON_stringify P ?data else ?data) = (Inr u, s1)"
      by blast
    from writeFileSync_fulfilled [OF this]
    have "locate sa ?path = Inr None \<or> (\<exists>old. locate sa ?path = Inr (Some (File old)))"
      by auto
    with Fulfilled nf have False
      by (auto simp: stat_fst split: if_splits)
    then show ?thesis ..
  qed
  with m show ?thesis by blast
qed

subsection \<open>Calling \<open>writep\<close> and \<open>mkdirp\<close> again\<close>

lemma isDirectory_iff: "isDirectory n = (n = Dir)"
  by (cases n) simp_all

lemma writep_second_call:
  assumes "writep P this s fpath v1 = Some (Fulfilled JUndefined, s1)"
  shows "\<exists>str. to_text P (if endsWith fpath ''.json''
                       then JSON_stringify P (if v1 = JUndefined then JObj [] else v1)
                       else (if v1 = JUndefined then JObj [] else v1)) = Some str \<and>
     locate s1 (join (dirpath this) fpath) = Inr (Some (File (utf8_encode P str))) \<and>
     \<not> trailing (join (dirpath this) fpath) \<and>
     writep P this s1 fpath v2 =
       Some (Fulfilled (JNum 1),
             called ''stat'' (join (dirpath this) fpath)
               (called ''stat'' (join (dirpath this) (dirname fpath))
                  (called ''mkdir'' (join (dirpath this) (dirname fpath)) s1)))"
proof -
  let ?path = "join (dirpath this) fpath"
  let ?dq = "dirname fpath"
  let ?qpath = "join (dirpath this) ?dq"
  let ?data = "if v1 = JUndefined then JObj [] else v1"
  let ?payload = "if endsWith fpath ''.json'' then JSON_stringify P ?data else ?data"
  from writep_fresh [OF assms] obtain r sa where
    m: "mkdirp this s ?dq = Some (r, sa)" and
    absent: "locate sa ?path = Inr None" and
    wd: "write_doc P this (called ''stat'' ?path sa) fpath ?data = (Fulfilled JUndefined, s1)"
    by blast
  let ?sw = "emit ''write'' [JStr fpath, ?data] (called ''stat'' ?path sa)"
  from write_doc_fulfilled [OF wd] obtain u where
    "writeFileSync P ?sw ?path ?payload = (Inr u, s1)" by blast
  from writeFileSync_fulfilled [OF this] obtain str where
    str: "to_text P ?payload = Some str" and nt: "\<not> trailing ?path" and
    cw: "cwd s1 = cwd ?sw" and
    tr: "tree s1 = AList.update (resolve (cwd ?sw) ?path) (File (utf8_encode P str)) (tree ?sw)"
    by blast
  have cw': "cwd s1 = cwd sa" using cw by (simp add: emit_def called_def)
  have tr': "tree s1 = AList.update (resolve (cwd sa) ?path) (File (utf8_encode P str)) (tree sa)"
    using tr by (simp add: emit_def called_def)
  have isfile: "locate s1 ?path = Inr (Some (File (utf8_encode P str)))"
    by (rule locate_written [OF absent locate_absent_nonempty [OF absent] cw' tr'])
  from mkdirp_settled_by_stat [OF m] have sett: "settled_by_stat this sa ?dq r" by simp
  then obtain er where er: "fst (mkdir this sa ?dq) = Rejected er" "er \<noteq> ENOENT"
    by (auto simp: settled_by_stat_def)
  have np: "\<not> prefix (resolve (cwd sa) ?path) (resolve (cwd sa) ?qpath)"
    by (rule mkdir_not_below_absent [OF absent er])
  have loc: "locate s1 ?qpath = locate sa ?qpath"
    by (rule locate_update_other [OF np cw' tr'])
  have "settled_by_stat this s1 ?dq r"
    using sett by (simp add: settled_by_stat_def mkdir_fst stat_fst loc)
  from settled_by_stat_mkdirp [OF this]
  have m2: "mkdirp this s1 ?dq = Some (r, called ''stat'' ?qpath (called ''mkdir'' ?qpath s1))" .
  from sett obtain x where r: "r = Fulfilled x" by (auto simp: settled_by_stat_def)
  let ?s2 = "called ''stat'' ?qpath (called ''mkdir'' ?qpath s1)"
  have "fst (stat this ?s2 fpath) = Fulfilled (File (utf8_encode P str))"
    using isfile nt by (simp add: stat_fst)
  then have st: "stat this ?s2 fpath = (Fulfilled (File (utf8_encode P str)), called ''stat'' ?path ?s2)"
    using stat_unfold [of this ?s2 fpath] by simp
  have "writep P this s1 fpath v2 = Some (Fulfilled (JNum 1), called ''stat'' ?path ?s2)"
    by (simp add: writep_def Let_def m2 r st)
  with str isfile nt show ?thesis by blast
qed

lemma mkdirp_again:
  assumes "mkdirp this s dpath = Some (Fulfilled (JNum 1), s1)"
  shows "fst (mkdir this s1 dpath) = Rejected EEXIST \<and>
         fst (stat this s1 dpath) = Fulfilled Dir \<and>
         mkdirp this s1 dpath =
           Some (Fulfilled (JNum 1),
                 called ''stat'' (join (dirpath this) dpath)
                   (called ''mkdir'' (join (dirpath this) dpath) s1))"
proof -
  from mkdirp_settled_by_stat [OF assms]
  have sett: "settled_by_stat this s1 dpath (Fulfilled (JNum 1))" by simp
  then have a: "fst (stat this s1 dpath) = Fulfilled Dir"
    by (cases "fst (stat this s1 dpath)")
       (auto simp: settled_by_stat_def isDirectory_iff split: if_splits)
  then have b: "fst (mkdir this s1 dpath) = Rejected EEXIST"
    by (auto simp: stat_fst mkdir_fst split: sum.splits option.splits if_splits)
  from a b settled_by_stat_mkdirp [OF sett] show ?thesis by simp
qed

lemma mkdirp_occupied:
  assumes "fst (stat this s dpath) = Fulfilled n" and "\<not> isDirectory n"
  shows "fst (mkdir this s dpath) = Rejected EEXIST \<and>
         mkdirp this s dpath =
           Some (Fulfilled (JError EEXIST),
                 called ''stat'' (join (dirpath this) dpath)
                   (called ''mkdir'' (join (dirpath this) dpath) s))"
proof -
  from assms(1) have b: "fst (mkdir this s dpath) = Rejected EEXIST"
    by (auto simp: stat_fst mkdir_fst split: sum.splits option.splits if_splits)
  with assms have "settled_by_stat this s dpath (Fulfilled (JError EEXIST))"
    by (simp add: settled_by_stat_def)
  from b settled_by_stat_mkdirp [OF this] show ?thesis by simp
qed

subsection \<open>\<open>mkdirp\<close> never rejects, and may never settle\<close>

lemma mkdirp_fulfils:
  assumes "mkdirp this s dpath = Some (r, s1)"
  shows "\<exists>v. r = Fulfilled v"
  using mkdirp_settled_by_stat [OF assms] by (auto simp: settled_by_stat_def)

lemma dirname_dot: "dirname ''.'' = ''.''"
  by (simp add: dirname_def)

lemma orphan_mkdir: "fst (mkdir orphan_server example_world ''.'') = Rejected ENOENT"
  by code_simp

lemma mkdirp_orphan:
  "mkdirp this s dpath = Some y \<Longrightarrow>
     \<not> (this = orphan_server \<and> dpath = ''.'' \<and> same_files s example_world)"
proof (induct rule: mkdirp_induct)
  case (step mkdirp' this s dpath y)
  show ?case
  proof
    assume a: "this = orphan_server \<and> dpath = ''.'' \<and> same_files s example_world"
    then have "fst (mkdir this s dpath) = Rejected ENOENT"
      using orphan_mkdir mkdir_fst_same [of s example_world orphan_server "''.''"] by simp
    from mkdir_rejected [OF this]
    have m: "mkdir this s dpath = (Rejected ENOENT, called ''mkdir'' (join (dirpath this) dpath) s)" .
    with step(2) a obtain z where
      "mkdirp' this (called ''mkdir'' (join (dirpath this) dpath) s) ''.'' = Some z"
      by (auto simp: dirname_dot bind_eq_Some_conv)
    from step(1) [OF this] a show False by simp
  qed
qed

lemma mkdirp_orphan_None:
  "same_files s example_world \<Longrightarrow> mkdirp orphan_server s ''.'' = None"
  using mkdirp_orphan [of orphan_server s "''.''"] by (cases "mkdirp orphan_server s ''.''") auto

subsection \<open>What \<open>rmrdir\<close> returns\<close>

lemma rmrdir_sentinel:
  assumes "rmrdir this s dpath = Some (Fulfilled (JNum 1), s')"
  shows "\<exists>n. fst (stat this s dpath) = Fulfilled n \<and> \<not> isFile n \<and> \<not> isDirectory n \<and>
             s' = called ''stat'' (join (dirpath this) dpath) s"
proof -
  let ?s1 = "called ''stat'' (join (dirpath this) dpath) s"
  have st: "stat this s dpath = (fst (stat this s dpath), ?s1)" by (rule stat_unfold)
  have nd: "\<And>w. fst (del this w dpath) \<noteq> Fulfilled (JNum 1)"
    by (auto simp: del_def split: prod.splits settled.splits)
  have nr: "\<And>w. fst (rmdir this w dpath) \<noteq> Fulfilled (JNum 1)"
    by (auto simp: rmdir_def split: prod.splits settled.splits)
  show ?thesis
  proof (cases "fst (stat this s dpath)")
    case (Rejected e)
    from rmrdir_absent [OF this] assms show ?thesis by simp
  next
    case (Fulfilled n)
    with st have st': "stat this s dpath = (Fulfilled n, ?s1)" by simp
    show ?thesis
    proof (cases "isFile n")
      case True
      with assms st' have "del this ?s1 dpath = (Fulfilled (JNum 1), s')"
        by (subst (asm) rmrdir.simps) simp
      with nd [of ?s1] show ?thesis by simp
    next
      case nf: False
      show ?thesis
      proof (cases "isDirectory n")
        case True
        from st' nf True have eq: "rmrdir this s dpath =
            (case pmReaddir ?s1 (join (dirpath this) dpath) of
               (Rejected er, s2) \<Rightarrow> Some (Rejected er, s2)
             | (Fulfilled names, s2) \<Rightarrow>
                 Option.bind (each_seq (\<lambda>dpth w. rmrdir this w (join dpath dpth)) names s2)
                   (\<lambda>(e, s3). case e of
                        Some er \<Rightarrow> Some (Rejected er, s3)
                      | None \<Rightarrow> Some (rmdir this s3 dpath)))"
          by (subst rmrdir.simps) simp
        obtain rd s2 where rd: "pmReaddir ?s1 (join (dirpath this) dpath) = (rd, s2)"
          by (cases "pmReaddir ?s1 (join (dirpath this) dpath)")
        have False
        proof (cases rd)
          case (Rejected er)
          with assms eq rd show False by simp
        next
          case (Fulfilled names)
          with assms eq rd obtain e s3 where
            k: "(case e of Some er \<Rightarrow> Some (Rejected er, s3)
                 | None \<Rightarrow> Some (rmdir this s3 dpath)) = Some (Fulfilled (JNum 1), s')"
            by (auto simp: bind_eq_Some_conv)
          show False
          proof (cases e)
            case None
            with k have "rmdir this s3 dpath = (Fulfilled (JNum 1), s')" by simp
            with nr [of s3] show False by simp
          next
            case (Some er)
            with k show False by simp
          qed
        qed
        then show ?thesis ..
      next
        case False
        with assms st' nf have "s' = ?s1"
          by (subst (asm) rmrdir.simps) simp
        with Fulfilled nf False show ?thesis by simp
      qed
    qed
  qed
qed

lemma rmrdir_file:
  assumes "fst (stat this s dpath) = Fulfilled (File bytes)"
  shows "rmrdir this s dpath = Some (del this (called ''stat'' (join (dirpath this) dpath) s) dpath)"
proof -
  have "stat this s dpath = (Fulfilled (File bytes), called ''stat'' (join (dirpath this) dpath) s)"
    using assms stat_unfold [of this s dpath] by simp
  then show ?thesis by (subst rmrdir.simps) simp
qed

subsection \<open>Paths: \<open>join\<close>, \<open>normalize\<close> and \<open>dirname\<close> against name resolution\<close>

declare kstep.simps [simp del] norm_step.simps [simp del]

lemma split_slash_not_Nil [simp]: "split_slash s \<noteq> []"
  by (induction s) auto

lemma split_slash_append:
  "split_slash (a @ CHR ''/'' # b) = split_slash a @ split_slash b"
  by (induction a) (auto simp: hd_append tl_append split: list.splits)

lemma split_slash_no_slash:
  "CHR ''/'' \<notin> set b \<Longrightarrow> split_slash b = [b]"
  by (induction b) auto

lemma split_slash_slash_free:
  "x \<in> set (split_slash s) \<Longrightarrow> CHR ''/'' \<notin> set x"
proof (induction s arbitrary: x)
  case Nil
  then show ?case by simp
next
  case (Cons c s)
  show ?case
  proof (cases "c = CHR ''/''")
    case True
    with Cons show ?thesis by auto
  next
    case False
    obtain y ys where ys: "split_slash s = y # ys" by (cases "split_slash s") auto
    with Cons False show ?thesis by auto
  qed
qed

lemma split_join_slash:
  "xs \<noteq> [] \<Longrightarrow> \<forall>x\<in>set xs. CHR ''/'' \<notin> set x \<Longrightarrow> split_slash (join_slash xs) = xs"
proof (induction xs rule: join_slash.induct)
  case 1
  then show ?case by simp
next
  case (2 x)
  then show ?case by (simp add: split_slash_no_slash)
next
  case (3 x y ys)
  then show ?case by (simp add: split_slash_append split_slash_no_slash)
qed

lemma norm_step_inv: "norm_inv allow N \<Longrightarrow> norm_inv allow (norm_step allow N seg)"
  by (auto simp: norm_inv_def norm_step.simps dest: in_set_butlastD)

lemma kstep_fold_plain:
  "e \<noteq> [] \<Longrightarrow> e \<noteq> ''.'' \<Longrightarrow> e \<noteq> ''..'' \<Longrightarrow> foldl kstep st (N @ [e]) = foldl kstep st N @ [e]"
  by (simp add: kstep.simps)

lemma norm_step_sim:
  assumes "norm_inv allow N" and "allow \<or> st = []"
  shows "foldl kstep st (norm_step allow N seg) = kstep (foldl kstep st N) seg"
proof (cases "seg = ''..''")
  case False
  then show ?thesis by (simp add: kstep.simps norm_step.simps)
next
  case True
  show ?thesis
  proof (cases "N \<noteq> [] \<and> last N \<noteq> ''..''")
    case pop: True
    then have N: "N = butlast N @ [last N]" by simp
    from pop assms(1) have l: "last N \<noteq> []" "last N \<noteq> ''.''" "last N \<noteq> ''..''"
      by (auto simp: norm_inv_def)
    have "foldl kstep st N = foldl kstep st (butlast N) @ [last N]"
      using kstep_fold_plain [OF l, of st "butlast N"] N by simp
    with True pop show ?thesis by (simp add: kstep.simps norm_step.simps)
  next
    case nopop: False
    show ?thesis
    proof (cases allow)
      case True
      with \<open>seg = ''..''\<close> nopop show ?thesis by (auto simp: kstep.simps norm_step.simps)
    next
      case False
      with assms have st: "st = []" and "''..'' \<notin> set N" by (auto simp: norm_inv_def)
      with nopop have "N = []" by (cases N rule: rev_cases) auto
      with st False \<open>seg = ''..''\<close> show ?thesis by (simp add: kstep.simps norm_step.simps)
    qed
  qed
qed

lemma norm_fold_sim:
  assumes "norm_inv allow N" and "allow \<or> st = []"
  shows "foldl kstep st (foldl (norm_step allow) N segs) = foldl kstep (foldl kstep st N) segs"
  using assms(1)
proof (induction segs arbitrary: N)
  case Nil
  show ?case by simp
next
  case (Cons seg segs)
  have "foldl kstep st (foldl (norm_step allow) (norm_step allow N seg) segs)
        = foldl kstep (foldl kstep st (norm_step allow N seg)) segs"
    by (rule Cons.IH [OF norm_step_inv [OF Cons.prems]])
  also have "foldl kstep st (norm_step allow N seg) = kstep (foldl kstep st N) seg"
    by (rule norm_step_sim [OF Cons.prems assms(2)])
  finally show ?case by simp
qed

lemma norm_fold_inv:
  "norm_inv allow N \<Longrightarrow> norm_inv allow (foldl (norm_step allow) N segs)"
  by (induction segs arbitrary: N) (simp_all add: norm_step_inv)

lemma norm_step_slash_free:
  "\<forall>e\<in>set N. CHR ''/'' \<notin> set e \<Longrightarrow> CHR ''/'' \<notin> set seg \<Longrightarrow>
     \<forall>e\<in>set (norm_step allow N seg). CHR ''/'' \<notin> set e"
  by (auto simp: norm_step.simps dest: in_set_butlastD)

lemma norm_fold_slash_free:
  "\<forall>e\<in>set N. CHR ''/'' \<notin> set e \<Longrightarrow> \<forall>e\<in>set segs. CHR ''/'' \<notin> set e \<Longrightarrow>
     \<forall>e\<in>set (foldl (norm_step allow) N segs). CHR ''/'' \<notin> set e"
proof (induction segs arbitrary: N)
  case Nil
  then show ?case by simp
next
  case (Cons seg segs)
  have "\<forall>e\<in>set (norm_step allow N seg). CHR ''/'' \<notin> set e"
    using Cons.prems by (intro norm_step_slash_free) auto
  from Cons.IH [OF this] Cons.prems(2) show ?case by simp
qed

lemma kstep_skip [simp]: "kstep st [] = st" "kstep st ''.'' = st"
  by (simp_all add: kstep.simps)

lemma foldl_kstep_skip [simp]:
  "foldl kstep st ([] # xs) = foldl kstep st xs"
  "foldl kstep st (xs @ [[]]) = foldl kstep st xs"
  by (simp_all add: kstep.simps)

lemma normalizeString_unfold:
  "normalizeString path allow = join_slash (foldl (norm_step allow) [] (split_slash path))"
  by (simp add: normalizeString_def)

lemma join_slash_Nil_iff:
  "\<forall>e\<in>set N. e \<noteq> [] \<Longrightarrow> (join_slash N = []) = (N = [])"
  by (induction N rule: join_slash.induct) auto

lemma hd_join_slash:
  "N \<noteq> [] \<Longrightarrow> hd N \<noteq> [] \<Longrightarrow> hd (join_slash N) = hd (hd N)"
  by (induction N rule: join_slash.induct) auto

lemma resolve_normalize:
  assumes "path \<noteq> []"
  shows "resolve wd (normalize_path path) = resolve wd path"
proof -
  let ?ab = "isAbsolute path"
  let ?st = "if ?ab then [] else wd"
  let ?N = "foldl (norm_step (\<not> ?ab)) [] (split_slash path)"
  have inv0: "norm_inv (\<not> ?ab) []" by (simp add: norm_inv_def)
  have inv: "norm_inv (\<not> ?ab) ?N" by (rule norm_fold_inv [OF inv0])
  then have ne: "\<forall>e\<in>set ?N. e \<noteq> []" by (auto simp: norm_inv_def)
  have sf: "\<forall>e\<in>set ?N. CHR ''/'' \<notin> set e"
    by (rule norm_fold_slash_free) (auto dest: split_slash_slash_free)
  have sim: "foldl kstep ?st ?N = foldl kstep ?st (split_slash path)"
    using norm_fold_sim [OF inv0, of ?st "split_slash path"] by simp
  have orig: "resolve wd path = foldl kstep ?st ?N"
    by (simp add: resolve_def sim)
  show ?thesis
  proof (cases "?N = []")
    case True
    then have "normalizeString path (\<not> ?ab) = []"
      by (simp add: normalizeString_def)
    then have np: "normalize_path path =
        (if ?ab then ''/'' else if trailing path then ''./'' else ''.'')"
      using assms by (simp add: normalize_path_def)
    show ?thesis
      unfolding orig True np
      by (simp add: resolve_def isAbsolute_def kstep.simps)
  next
    case False
    let ?J = "join_slash ?N"
    from False ne have J: "?J \<noteq> []" by (simp add: join_slash_Nil_iff)
    then have np: "normalize_path path =
        (if ?ab then ''/'' else []) @ ?J @ (if trailing path then ''/'' else [])"
      using assms by (simp add: normalize_path_def normalizeString_def Let_def)
    have hdN: "hd ?N \<noteq> []" "CHR ''/'' \<notin> set (hd ?N)"
      using False ne sf by auto
    then have "hd (hd ?N) \<noteq> CHR ''/''" by (cases "hd ?N") auto
    with False hdN have hdJ: "hd ?J \<noteq> CHR ''/''" by (simp add: hd_join_slash)
    have ab': "isAbsolute (normalize_path path) = ?ab"
      unfolding np using J hdJ by (auto simp: isAbsolute_def hd_append)
    have sp: "split_slash ?J = ?N" by (rule split_join_slash [OF False sf])
    have a: "foldl kstep st (split_slash (?J @ (if trailing path then ''/'' else []))) = foldl kstep st ?N" for st
      using split_slash_append [of ?J "[]"] sp by simp
    have "foldl kstep ?st (split_slash (normalize_path path)) = foldl kstep ?st ?N"
    proof (cases ?ab)
      case True
      have "split_slash (normalize_path path)
           = [] # split_slash (?J @ (if trailing path then ''/'' else []))"
        unfolding np using True by simp
      then show ?thesis using a by simp
    next
      case False
      then show ?thesis unfolding np using a by simp
    qed
    then show ?thesis unfolding orig by (simp add: resolve_def ab')
  qed
qed

lemma resolve_join:
  assumes "root \<noteq> []"
  shows "resolve wd (join root p) = foldl kstep (resolve wd root) (split_slash p)"
proof (cases "p = []")
  case True
  then have "join root p = normalize_path root" using assms by (simp add: join_def)
  then show ?thesis using True assms by (simp add: resolve_normalize)
next
  case False
  then have j: "join root p = normalize_path (root @ CHR ''/'' # p)"
    using assms by (simp add: join_def)
  have ab: "isAbsolute (root @ CHR ''/'' # p) = isAbsolute root"
    using assms by (simp add: isAbsolute_def)
  show ?thesis
    unfolding j by (simp add: resolve_normalize) (simp add: resolve_def ab split_slash_append)
qed

lemma kstep_prefix:
  "seg \<noteq> ''..'' \<Longrightarrow> prefix st st' \<Longrightarrow> prefix st (kstep st' seg)"
  by (auto simp: kstep.simps)

lemma fold_kstep_prefix:
  "''..'' \<notin> set segs \<Longrightarrow> prefix st st' \<Longrightarrow> prefix st (foldl kstep st' segs)"
proof (induction segs arbitrary: st')
  case Nil
  then show ?case by simp
next
  case (Cons seg segs)
  from Cons.prems have "seg \<noteq> ''..''" by auto
  from kstep_prefix [OF this Cons.prems(2)] Cons.prems(1) Cons.IH show ?case by simp
qed



lemma foldl_kstep_replicate [simp]: "foldl kstep st (replicate n []) = st"
  by (induction n) simp_all



subsection \<open>\<open>writep\<close> of a path that is occupied\<close>







declare kstep.simps [simp] norm_step.simps [simp]
declare kstep_skip [simp del] foldl_kstep_skip [simp del] foldl_kstep_replicate [simp del]
declare split_slash_not_Nil [simp del]

section \<open>The claims\<close>

subsection \<open>Writing and reading a document\<close>

text \<open>
  C8. \<open>write\<close> emits the \<open>write\<close> event, with the path and the value as passed (before
  any serialisation), and only then calls \<open>writeFileSync\<close>; this is the whole trace of
  the call, whatever the outcome of the write, so the event is there when the write fails.
\<close>

theorem write_notifies_before_writing:
  "trace (snd (write_doc P this s fpath data)) =
     trace s @ [Emitted ''write'' [JStr fpath, data],
                Called ''writeFileSync'' (join (dirpath this) fpath)]"
  by (auto simp: write_doc_def writeFileSync_def Let_def emit_def called_def
      split: prod.splits sum.splits option.splits node.splits if_splits)

theorem write_notifies_before_writing_witness:
  "fst (write_doc literal_platform example_server example_world ''nodir/x.json'' JNull)
     = Rejected ENOENT \<and>
   trace (snd (write_doc literal_platform example_server example_world ''nodir/x.json'' JNull))
     = [Emitted ''write'' [JStr ''nodir/x.json'', JNull],
        Called ''writeFileSync'' ''/data/nodir/x.json'']"
proof -
  have "fst (write_doc literal_platform example_server example_world ''nodir/x.json'' JNull)
     = Rejected ENOENT"
    by code_simp
  moreover have "join (dirpath example_server) ''nodir/x.json'' = ''/data/nodir/x.json''"
    by code_simp
  moreover have "trace example_world = []"
    by (simp add: example_world_def)
  ultimately show ?thesis
    using write_notifies_before_writing
      [of literal_platform example_server example_world "''nodir/x.json''" JNull]
    by simp
qed

text \<open>
  C4. A value that \<open>JSON.stringify\<close> turns into a text which \<open>JSON.parse\<close> reads back
  as the same value after the text has gone through the file (encoded by
  \<open>writeFileSync\<close>, decoded by \<open>read\<close>), written with \<open>write\<close> to a path ending in
  \<open>.json\<close>, is the value a following \<open>read\<close> of the path returns.
\<close>

theorem write_read_roundtrip:
  assumes "endsWith fpath ''.json''"
      and "JSON_stringify P v = JStr t"
      and "JSON_parse P (utf8_decode P (utf8_encode P t)) = Some v"
      and "write_doc P this s fpath v = (Fulfilled u, s1)"
  shows "fst (read P this s1 fpath) = Fulfilled v"
  using read_after_write [OF assms(4)] assms(1-3) by (auto simp: to_text_def)

theorem write_read_roundtrip_witness:
  "endsWith ''a/doc.json'' ''.json'' \<and>
   JSON_stringify literal_platform (JBool True) = JStr ''true'' \<and>
   JSON_parse literal_platform (utf8_decode literal_platform (utf8_encode literal_platform ''true''))
     = Some (JBool True) \<and>
   fst (write_doc literal_platform example_server example_world ''a/doc.json'' (JBool True))
     = Fulfilled JUndefined \<and>
   fst (read literal_platform example_server
          (snd (write_doc literal_platform example_server example_world ''a/doc.json'' (JBool True)))
          ''a/doc.json'') = Fulfilled (JBool True)"
proof -
  have a: "endsWith ''a/doc.json'' ''.json''" by code_simp
  have b: "JSON_stringify literal_platform (JBool True) = JStr ''true''"
    by (simp add: literal_platform_def)
  have c: "JSON_parse literal_platform (utf8_decode literal_platform (utf8_encode literal_platform ''true''))
     = Some (JBool True)"
    by (simp add: literal_platform_def)
  have d: "fst (write_doc literal_platform example_server example_world ''a/doc.json'' (JBool True))
     = Fulfilled JUndefined" by code_simp
  then have e: "write_doc literal_platform example_server example_world ''a/doc.json'' (JBool True)
     = (Fulfilled JUndefined,
        snd (write_doc literal_platform example_server example_world ''a/doc.json'' (JBool True)))"
    by (metis prod.collapse)
  show ?thesis using a b c d write_read_roundtrip [OF a b c e] by simp
qed

text \<open>
  C3, as the code has it. \<open>read\<close> passes the text of every file to \<open>JSON.parse\<close>,
  whatever the extension of the path: after a string has been written to a path that
  does not end in \<open>.json\<close>, \<open>read\<close> returns the decoded value when the text read back
  is JSON text, and the text read back when it is not. The text read back is the string
  written when the string survives the UTF-8 encoding of the file and its decoding, as
  every well-formed string does.
\<close>

theorem read_decodes_any_extension:
  assumes "\<not> endsWith fpath ''.json''"
      and "write_doc P this s fpath (JStr t) = (Fulfilled u, s1)"
  shows "fst (read P this s1 fpath) =
           Fulfilled (case JSON_parse P (utf8_decode P (utf8_encode P t)) of
                        Some v \<Rightarrow> v
                      | None \<Rightarrow> JStr (utf8_decode P (utf8_encode P t))) \<and>
         (utf8_decode P (utf8_encode P t) = t \<longrightarrow>
            fst (read P this s1 fpath) =
              Fulfilled (case JSON_parse P t of Some v \<Rightarrow> v | None \<Rightarrow> JStr t))"
  using read_after_write [OF assms(2)] assms(1) by (auto simp: to_text_def split: option.splits)

theorem read_decodes_any_extension_witness:
  "\<not> endsWith ''a/note.txt'' ''.json'' \<and>
   fst (write_doc literal_platform example_server example_world ''a/note.txt'' (JStr ''hello''))
     = Fulfilled JUndefined \<and>
   utf8_decode literal_platform (utf8_encode literal_platform ''hello'') = ''hello'' \<and>
   JSON_parse literal_platform ''hello'' = None \<and>
   fst (read literal_platform example_server
          (snd (write_doc literal_platform example_server example_world ''a/note.txt'' (JStr ''hello'')))
          ''a/note.txt'') = Fulfilled (JStr ''hello'')"
proof -
  have a: "\<not> endsWith ''a/note.txt'' ''.json''" by code_simp
  have d: "fst (write_doc literal_platform example_server example_world ''a/note.txt'' (JStr ''hello''))
     = Fulfilled JUndefined" by code_simp
  then have e: "write_doc literal_platform example_server example_world ''a/note.txt'' (JStr ''hello'')
     = (Fulfilled JUndefined,
        snd (write_doc literal_platform example_server example_world ''a/note.txt'' (JStr ''hello'')))"
    by (metis prod.collapse)
  have p: "JSON_parse literal_platform ''hello'' = None"
    by (simp add: literal_platform_def)
  have q: "utf8_decode literal_platform (utf8_encode literal_platform ''hello'') = ''hello''"
    by (simp add: literal_platform_def)
  show ?thesis using a d p q read_decodes_any_extension [OF a e] by simp
qed

text \<open>
  C3, as the specification has it, fails: the text \<open>true\<close> written to \<open>a/note.txt\<close> is
  read back as the boolean, not as the four characters written.
\<close>

theorem read_raw_counterexample:
  "\<not> endsWith ''a/note.txt'' ''.json'' \<and>
   fst (write_doc literal_platform example_server example_world ''a/note.txt'' (JStr ''true''))
     = Fulfilled JUndefined \<and>
   fst (read literal_platform example_server
          (snd (write_doc literal_platform example_server example_world ''a/note.txt'' (JStr ''true'')))
          ''a/note.txt'') = Fulfilled (JBool True) \<and>
   JBool True \<noteq> JStr ''true''"
  by code_simp

subsection \<open>Removing a tree\<close>

text \<open>
  C2, as the code has it. \<open>rmrdir\<close> awaits \<open>stat\<close> outside any \<open>try\<close>: for a path that
  does not exist the promise is rejected with the \<open>ENOENT\<close> of \<open>stat\<close> (as with any
  other error of \<open>stat\<close>), after that one call. The value \<open>1\<close> is returned only for an
  existing entry that is neither a file nor a directory, after the one call of \<open>stat\<close>
  again, and a socket is such an entry; a file is handed to \<open>del\<close>.
\<close>

theorem rmrdir_absent_path:
  "(fst (stat this s dpath) = Rejected e \<longrightarrow>
      rmrdir this s dpath =
        Some (Rejected e, called ''stat'' (join (dirpath this) dpath) s)) \<and>
   (rmrdir this s dpath = Some (Fulfilled (JNum 1), s') \<longrightarrow>
      (\<exists>n. fst (stat this s dpath) = Fulfilled n \<and> \<not> isFile n \<and> \<not> isDirectory n) \<and>
      s' = called ''stat'' (join (dirpath this) dpath) s) \<and>
   (fst (stat this s dpath) = Fulfilled Socket \<longrightarrow>
      rmrdir this s dpath =
        Some (Fulfilled (JNum 1), called ''stat'' (join (dirpath this) dpath) s)) \<and>
   (fst (stat this s dpath) = Fulfilled (File bytes) \<longrightarrow>
      rmrdir this s dpath =
        Some (del this (called ''stat'' (join (dirpath this) dpath) s) dpath))"
  using rmrdir_absent [of this s dpath e] rmrdir_other [of this s dpath]
    rmrdir_sentinel [of this s dpath s'] rmrdir_file [of this s dpath bytes]
  by blast

theorem rmrdir_absent_path_witness:
  "fst (stat example_server example_world ''gone'') = Rejected ENOENT \<and>
   rmrdir example_server example_world ''gone'' =
     Some (Rejected ENOENT, called ''stat'' (join (dirpath example_server) ''gone'') example_world) \<and>
   fst (stat example_server example_world ''ctl.sock'') = Fulfilled Socket \<and>
   rmrdir example_server example_world ''ctl.sock'' =
     Some (Fulfilled (JNum 1), called ''stat'' (join (dirpath example_server) ''ctl.sock'') example_world) \<and>
   \<not> isFile Socket \<and> \<not> isDirectory Socket \<and>
   fst (stat example_server stored_world ''a/doc.json'') = Fulfilled (File ''true'') \<and>
   rmrdir example_server stored_world ''a/doc.json'' =
     Some (del example_server
             (called ''stat'' (join (dirpath example_server) ''a/doc.json'') stored_world) ''a/doc.json'') \<and>
   map_option fst (rmrdir example_server stored_world ''a/doc.json'') = Some (Fulfilled JUndefined) \<and>
   map_option (\<lambda>r. tree (snd r)) (rmrdir example_server stored_world ''a/doc.json'')
     = Some (tree example_world)"
proof -
  have a: "fst (stat example_server example_world ''gone'') = Rejected ENOENT" by code_simp
  have b: "fst (stat example_server example_world ''ctl.sock'') = Fulfilled Socket" by code_simp
  have c: "fst (stat example_server stored_world ''a/doc.json'') = Fulfilled (File ''true'')"
    by code_simp
  have d: "map_option fst (rmrdir example_server stored_world ''a/doc.json'') = Some (Fulfilled JUndefined)"
    by code_simp
  have e: "map_option (\<lambda>r. tree (snd r)) (rmrdir example_server stored_world ''a/doc.json'')
     = Some (tree example_world)"
    by code_simp
  let ?t = "called ''stat'' (join (dirpath example_server) ''ctl.sock'') example_world"
  show ?thesis
    using a b c d e
      rmrdir_absent_path [where this = example_server and s = example_world
        and dpath = "''gone''" and e = ENOENT and s' = example_world and bytes = "[]"]
      rmrdir_absent_path [where this = example_server and s = example_world
        and dpath = "''ctl.sock''" and e = ENOENT and s' = ?t and bytes = "[]"]
      rmrdir_absent_path [where this = example_server and s = stored_world
        and dpath = "''a/doc.json''" and e = ENOENT and s' = stored_world and bytes = "''true''"]
    by simp
qed

text \<open>
  C2, as the specification has it, fails: nothing is at \<open>/data/gone\<close>, and \<open>rmrdir\<close> of
  it is rejected.
\<close>

theorem rmrdir_absent_path_counterexample:
  "fst (stat example_server example_world ''gone'') = Rejected ENOENT \<and>
   map_option fst (rmrdir example_server example_world ''gone'') = Some (Rejected ENOENT)"
  by code_simp


subsection \<open>Creating a document only if it is absent\<close>

text \<open>
  C5. The promise of \<open>writep\<close> is fulfilled with \<open>undefined\<close> only by a fresh write (a
  file found gives \<open>1\<close>, a failed \<open>stat\<close> the error object, a failed write a rejection).
  After such a call, a second \<open>writep\<close> of the same path with any value is fulfilled
  with \<open>1\<close>; it calls \<open>mkdir\<close> and \<open>stat\<close> for the parent and \<open>stat\<close> for the path, and
  nothing else, so the tree is the same and the file holds the bytes written for the
  first value (the UTF-8 encoding of its text).
\<close>

theorem writep_twice_keeps_first:
  assumes "writep P this s fpath v1 = Some (Fulfilled JUndefined, s1)"
  shows "\<exists>s2 str.
     writep P this s1 fpath v2 = Some (Fulfilled (JNum 1), s2) \<and>
     tree s2 = tree s1 \<and>
     trace s2 = trace s1 @
       [Called ''mkdir'' (join (dirpath this) (dirname fpath)),
        Called ''stat'' (join (dirpath this) (dirname fpath)),
        Called ''stat'' (join (dirpath this) fpath)] \<and>
     to_text P (if endsWith fpath ''.json''
                then JSON_stringify P (if v1 = JUndefined then JObj [] else v1)
                else (if v1 = JUndefined then JObj [] else v1)) = Some str \<and>
     fst (pmReadFile s2 (join (dirpath this) fpath)) = Fulfilled (utf8_encode P str)"
proof -
  from writep_second_call [OF assms, of v2] obtain str where
    "to_text P (if endsWith fpath ''.json''
                then JSON_stringify P (if v1 = JUndefined then JObj [] else v1)
                else (if v1 = JUndefined then JObj [] else v1)) = Some str"
    "locate s1 (join (dirpath this) fpath) = Inr (Some (File (utf8_encode P str)))"
    "\<not> trailing (join (dirpath this) fpath)"
    "writep P this s1 fpath v2 =
       Some (Fulfilled (JNum 1),
             called ''stat'' (join (dirpath this) fpath)
               (called ''stat'' (join (dirpath this) (dirname fpath))
                  (called ''mkdir'' (join (dirpath this) (dirname fpath)) s1)))"
    by blast
  note f = this
  let ?s2 = "called ''stat'' (join (dirpath this) fpath)
               (called ''stat'' (join (dirpath this) (dirname fpath))
                  (called ''mkdir'' (join (dirpath this) (dirname fpath)) s1))"
  have a: "tree ?s2 = tree s1" by (simp add: called_def)
  have b: "trace ?s2 = trace s1 @
       [Called ''mkdir'' (join (dirpath this) (dirname fpath)),
        Called ''stat'' (join (dirpath this) (dirname fpath)),
        Called ''stat'' (join (dirpath this) fpath)]" by (simp add: called_def)
  have c: "fst (pmReadFile ?s2 (join (dirpath this) fpath)) = Fulfilled (utf8_encode P str)"
    using f(2,3) by (simp add: pmReadFile_def)
  from f(1,4) a b c show ?thesis by blast
qed

theorem writep_twice_keeps_first_witness:
  "writep literal_platform example_server example_world ''a/b/doc.json'' (JBool True) =
     Some (Fulfilled JUndefined,
           snd (the (writep literal_platform example_server example_world ''a/b/doc.json'' (JBool True)))) \<and>
   (\<exists>s2. writep literal_platform example_server
            (snd (the (writep literal_platform example_server example_world ''a/b/doc.json'' (JBool True))))
            ''a/b/doc.json'' (JBool False) = Some (Fulfilled (JNum 1), s2) \<and>
         fst (pmReadFile s2 ''/data/a/b/doc.json'') = Fulfilled ''true'') \<and>
   utf8_encode literal_platform ''true'' = ''true''"
proof -
  let ?w = "writep literal_platform example_server example_world ''a/b/doc.json'' (JBool True)"
  have "map_option fst ?w = Some (Fulfilled JUndefined)" by code_simp
  then have e: "?w = Some (Fulfilled JUndefined, snd (the ?w))" by (cases ?w) auto
  have j: "join (dirpath example_server) ''a/b/doc.json'' = ''/data/a/b/doc.json''" by code_simp
  have t: "to_text literal_platform (if endsWith ''a/b/doc.json'' ''.json''
                then JSON_stringify literal_platform (if JBool True = JUndefined then JObj [] else JBool True)
                else (if JBool True = JUndefined then JObj [] else JBool True)) = Some ''true''"
    by code_simp
  have u: "utf8_encode literal_platform ''true'' = ''true''"
    by (simp add: literal_platform_def)
  from writep_twice_keeps_first [OF e, of "JBool False"] e t u show ?thesis
    unfolding j by auto
qed

text \<open>
  C7 at a store whose root \<open>/srv/db\<close> and the root's parent \<open>/srv\<close> do not exist: the
  parent of \<open>doc.json\<close> is missing and \<open>write\<close> is rejected with \<open>ENOENT\<close>, but the
  promise of \<open>writep\<close> never settles.
\<close>

theorem writep_hangs:
  "fst (stat orphan_server example_world (dirname ''doc.json'')) = Rejected ENOENT \<and>
   fst (write_doc literal_platform orphan_server example_world ''doc.json'' JNull) = Rejected ENOENT \<and>
   writep literal_platform orphan_server example_world ''doc.json'' JNull = None"
proof -
  have a: "fst (stat orphan_server example_world (dirname ''doc.json'')) = Rejected ENOENT"
    by code_simp
  have b: "fst (write_doc literal_platform orphan_server example_world ''doc.json'' JNull) = Rejected ENOENT"
    by code_simp
  have d: "dirname ''doc.json'' = ''.''" by code_simp
  have c: "writep literal_platform orphan_server example_world ''doc.json'' JNull = None"
    by (simp add: writep_def d mkdirp_orphan_None)
  from a b c show ?thesis by simp
qed

subsection \<open>Provisioning a directory\<close>

text \<open>
  C6. After \<open>mkdirp\<close> was fulfilled with \<open>1\<close>, a second call for the same path is
  fulfilled with \<open>1\<close> as well: its \<open>mkdir\<close> fails with \<open>EEXIST\<close>, its \<open>stat\<close> finds the
  directory, these two calls are all it does, and the tree is unchanged. When \<open>stat\<close>
  finds an entry that is not a directory, \<open>mkdirp\<close> gives back the error of its \<open>mkdir\<close>
  (as the value of the promise) and leaves the tree as it is.
\<close>

theorem mkdirp_idempotent:
  "(mkdirp this s dpath = Some (Fulfilled (JNum 1), s1) \<longrightarrow>
      (\<exists>s2. mkdirp this s1 dpath = Some (Fulfilled (JNum 1), s2) \<and>
            tree s2 = tree s1 \<and>
            fst (mkdir this s1 dpath) = Rejected EEXIST \<and>
            fst (stat this s1 dpath) = Fulfilled Dir \<and>
            trace s2 = trace s1 @
              [Called ''mkdir'' (join (dirpath this) dpath),
               Called ''stat'' (join (dirpath this) dpath)])) \<and>
   (fst (stat this s dpath) = Fulfilled n \<and> \<not> isDirectory n \<longrightarrow>
      (\<exists>er s2. fst (mkdir this s dpath) = Rejected er \<and>
            mkdirp this s dpath = Some (Fulfilled (JError er), s2) \<and>
            tree s2 = tree s))"
proof (intro conjI impI)
  assume "mkdirp this s dpath = Some (Fulfilled (JNum 1), s1)"
  from mkdirp_again [OF this]
  show "\<exists>s2. mkdirp this s1 dpath = Some (Fulfilled (JNum 1), s2) \<and>
            tree s2 = tree s1 \<and>
            fst (mkdir this s1 dpath) = Rejected EEXIST \<and>
            fst (stat this s1 dpath) = Fulfilled Dir \<and>
            trace s2 = trace s1 @
              [Called ''mkdir'' (join (dirpath this) dpath),
               Called ''stat'' (join (dirpath this) dpath)]"
    by (simp add: called_def)
next
  assume "fst (stat this s dpath) = Fulfilled n \<and> \<not> isDirectory n"
  then have "fst (stat this s dpath) = Fulfilled n" "\<not> isDirectory n" by simp_all
  from mkdirp_occupied [OF this]
  show "\<exists>er s2. fst (mkdir this s dpath) = Rejected er \<and>
            mkdirp this s dpath = Some (Fulfilled (JError er), s2) \<and>
            tree s2 = tree s"
    by (simp add: called_def)
qed

theorem mkdirp_idempotent_witness:
  "mkdirp example_server example_world ''x/y'' =
     Some (Fulfilled (JNum 1), snd (the (mkdirp example_server example_world ''x/y''))) \<and>
   (\<exists>s2. mkdirp example_server (snd (the (mkdirp example_server example_world ''x/y''))) ''x/y''
          = Some (Fulfilled (JNum 1), s2) \<and>
        tree s2 = tree (snd (the (mkdirp example_server example_world ''x/y'')))) \<and>
   fst (stat example_server example_world ''ctl.sock'') = Fulfilled Socket \<and>
   \<not> isDirectory Socket \<and>
   (\<exists>s2. mkdirp example_server example_world ''ctl.sock'' = Some (Fulfilled (JError EEXIST), s2) \<and>
        tree s2 = tree example_world)"
proof -
  let ?m = "mkdirp example_server example_world ''x/y''"
  have "map_option fst ?m = Some (Fulfilled (JNum 1))" by code_simp
  then have e: "?m = Some (Fulfilled (JNum 1), snd (the ?m))" by (cases ?m) auto
  have st: "fst (stat example_server example_world ''ctl.sock'') = Fulfilled Socket" by code_simp
  have mk: "fst (mkdir example_server example_world ''ctl.sock'') = Rejected EEXIST" by code_simp
  from mkdirp_idempotent [where this = example_server and s = example_world
        and dpath = "''x/y''" and ?s1.0 = "snd (the ?m)"]
      mkdirp_idempotent [where this = example_server and s = example_world
        and dpath = "''ctl.sock''" and n = Socket] e st mk
  show ?thesis by auto
qed

text \<open>
  C10 at the same store as C7: \<open>mkdir\<close> of the root fails with \<open>ENOENT\<close>, the parent of
  \<open>.\<close> is \<open>.\<close> again, and the promise of \<open>mkdirp\<close> never settles.
\<close>

theorem mkdirp_hangs: "mkdirp orphan_server example_world ''.'' = None"
  by (simp add: mkdirp_orphan_None)

subsection \<open>Occupied paths, and paths that leave the root\<close>




text \<open>
  C9, as the code has it. The path of every operation is \<open>path.join\<close> of the root and
  the caller's path, and nothing else: no segment is rejected. A path without a \<open>..\<close>
  segment resolves to a path at or below the root, from any working directory.
\<close>

theorem join_stays_under_root:
  assumes "FileServer d = Some this" and "''..'' \<notin> set (split_slash p)"
  shows "prefix (resolve wd (dirpath this)) (resolve wd (join (dirpath this) p))"
proof -
  from assms(1) have root: "dirpath this \<noteq> []"
    by (auto simp: FileServer_def split: if_splits)
  show ?thesis
    unfolding resolve_join [OF root] by (rule fold_kstep_prefix [OF assms(2)]) simp
qed

theorem join_stays_under_root_witness:
  "FileServer ''/data'' = Some example_server \<and>
   ''..'' \<notin> set (split_slash ''a/b/doc.json'') \<and>
   prefix (resolve [] (dirpath example_server))
          (resolve [] (join (dirpath example_server) ''a/b/doc.json'')) \<and>
   resolve [] (join (dirpath example_server) ''a/b/doc.json'') = [''data'', ''a'', ''b'', ''doc.json'']"
proof -
  have a: "FileServer ''/data'' = Some example_server"
    by (simp add: FileServer_def example_server_def)
  have b: "''..'' \<notin> set (split_slash ''a/b/doc.json'')" by code_simp
  have c: "resolve [] (join (dirpath example_server) ''a/b/doc.json'') = [''data'', ''a'', ''b'', ''doc.json'']"
    by code_simp
  from join_stays_under_root [OF a b, of "[]"] a b c show ?thesis by simp
qed

text \<open>
  C9, as the specification has it, fails: \<open>../etc/passwd\<close> joined to the root \<open>/data\<close> is
  \<open>/etc/passwd\<close>, which is not below the root, and \<open>stat\<close> is called for it.
\<close>

theorem join_escapes_counterexample:
  "join (dirpath example_server) ''../etc/passwd'' = ''/etc/passwd'' \<and>
   \<not> prefix (resolve (cwd example_world) (dirpath example_server))
       (resolve (cwd example_world) (join (dirpath example_server) ''../etc/passwd'')) \<and>
   trace (snd (stat example_server example_world ''../etc/passwd'')) = [Called ''stat'' ''/etc/passwd'']"
  by code_simp

end
